theory Spec2Isabelle
  imports Main "HOL-Library.AList"
begin

section \<open>Data model of tools/generate.py\<close>

text \<open>
  A Python \<open>str\<close> is a sequence of Unicode code points; \<open>len\<close> counts code points and a
  slice takes code points. A string is therefore a list of code points (natural numbers),
  not a list of bytes. \<open>str\<close> turns an ASCII literal into such a list.
\<close>

type_synonym pystr = "nat list"

definition str :: "string \<Rightarrow> pystr" where
  "str s = map of_char s"

definition TAB :: nat where
  "TAB = 9"

text \<open>The string \<open>"\\N"\<close> of line 110: a backslash followed by the letter N.\<close>

definition NULL_LANG :: pystr where
  "NULL_LANG = [92, 78]"

definition MIN_USER_CONTRIB_IN_LANG :: nat where
  "MIN_USER_CONTRIB_IN_LANG = 100"

definition MIN_NGRAM_SIZE :: nat where
  "MIN_NGRAM_SIZE = 2"

definition MAX_NGRAM_SIZE :: nat where
  "MAX_NGRAM_SIZE = 5"

text \<open>
  The exceptions the modelled code can raise. \<open>UnpackValueError\<close> and \<open>IntValueError\<close>
  are both Python's \<open>ValueError\<close>: the first is raised by a tuple assignment whose
  right-hand side has the wrong number of items, the second by \<open>int\<close> on a string that
  is not an integer literal. \<open>CompareTypeError\<close> is the \<open>TypeError\<close> of
  \<open>None >= max_memory\<close>, \<open>OpenTypeError\<close> the \<open>TypeError\<close> of \<open>open(None, ...)\<close>.
\<close>

datatype py_error =
    UnpackValueError
  | IntValueError
  | CompareTypeError
  | OpenTypeError
  | UnboundLocalError
  | FileNotFoundError
  | IntegrityError
  | SystemExit

subsection \<open>String operations of the standard library\<close>

text \<open>
  \<open>str.rstrip()\<close> without argument removes the trailing characters that
  \<open>str.isspace\<close> accepts; these are the code points below.
\<close>

definition is_whitespace :: "nat \<Rightarrow> bool" where
  "is_whitespace c \<longleftrightarrow>
     (9 \<le> c \<and> c \<le> 13) \<or> (28 \<le> c \<and> c \<le> 32) \<or> c = 133 \<or> c = 160 \<or> c = 5760 \<or>
     (8192 \<le> c \<and> c \<le> 8202) \<or> c = 8232 \<or> c = 8233 \<or> c = 8239 \<or> c = 8287 \<or>
     c = 12288"

definition rstrip :: "pystr \<Rightarrow> pystr" where
  "rstrip s = rev (dropWhile is_whitespace (rev s))"

text \<open>
  \<open>s.split(sep)\<close> with a one-character separator: the fields between the occurrences
  of \<open>sep\<close>; the result is never empty (\<open>"".split("\t") == [""]\<close>). \<open>cur\<close> holds the
  current field, reversed.
\<close>

fun split_acc :: "'a \<Rightarrow> 'a list \<Rightarrow> 'a list \<Rightarrow> 'a list list" where
  "split_acc sep cur [] = [rev cur]"
| "split_acc sep cur (c # cs) =
     (if c = sep then rev cur # split_acc sep [] cs else split_acc sep (c # cur) cs)"

definition split :: "'a \<Rightarrow> 'a list \<Rightarrow> 'a list list" where
  "split sep s = split_acc sep [] s"

subsection \<open>The two stores and the state of a counting run\<close>

text \<open>
  A row of a table \<open>grams<n>\<close> of the raw store is \<open>(gram, lang, hit)\<close>; a row of
  \<open>users_langs\<close> is \<open>(user, lang, total)\<close>. A table is the list of its rows in
  insertion order. Hit counts and totals are natural numbers without bound (SQLite stores
  64-bit integers; a count beyond that range needs a corpus of more than \<open>2^63\<close>
  characters and is not modelled).
\<close>

type_synonym gram_row = "pystr \<times> pystr \<times> nat"
type_synonym user_row = "pystr \<times> pystr \<times> nat"

text \<open>
  \<open>lang_ngram_cnt\<close> is a dictionary of dictionaries, \<open>user_lang_score\<close> a dictionary
  keyed by pairs. A dictionary is an association list in insertion order with one entry
  per key; \<open>map_of\<close> reads it and \<open>AList.update\<close> writes it (replacing the value of a
  key that is present, appending a new key at the end).
\<close>

type_synonym ngram_cnt = "(pystr \<times> (pystr \<times> nat) list) list"

datatype platform = Linux | Darwin | Other

text \<open>
  What the run takes from outside the program text:
  \<^item> \<open>to_int\<close> is the builtin \<open>int\<close> on strings, \<open>None\<close> where it raises \<open>ValueError\<close>;
  \<^item> \<open>platform\<close> is \<open>sys.platform\<close>;
  \<^item> \<open>ru_maxrss k\<close> is what \<open>resource.getrusage(RUSAGE_SELF).ru_maxrss\<close> returns at
    the \<open>k\<close>-th call of \<open>get_peak_memory_usage\<close> of the run (counted from 0).
\<close>

record env =
  to_int :: "pystr \<Rightarrow> int option"
  platform :: platform
  ru_maxrss :: "nat \<Rightarrow> int"

text \<open>
  The local variables of \<open>RawTatodetectDB.count\<close> and the raw store it writes. Four
  fields record what the run does besides: \<open>opens\<close> the n-gram size of every \<open>open\<close> of
  the corpus file, \<open>lines_read\<close> the number of lines the loops over the file have
  yielded, \<open>probed\<close> the n-gram size of the pass during which each call of
  \<open>get_peak_memory_usage\<close> was made, \<open>flushes\<close> for every flush of lines 135 to 138
  the pass, the new value of \<open>peak_tot_ngrams\<close> and the number of
  \<open>(language, n-gram)\<close> entries of the buffer that was written.
\<close>

record count_state =
  grams :: "nat \<Rightarrow> gram_row list"
  users_langs :: "user_row list"
  tot_ngrams :: nat
  peak_tot_ngrams :: "nat option"
  user_lang_score :: "((pystr \<times> pystr) \<times> nat) list"
  lang_ngram_cnt :: ngram_cnt
  line_id :: "nat option"
  opens :: "nat list"
  lines_read :: nat
  probed :: "nat list"
  flushes :: "(nat \<times> nat \<times> nat) list"

section \<open>RawTatodetectDB\<close>

text \<open>
  \<open>get_peak_memory_usage\<close>: megabytes on linux (kilobytes \<open>// 1000\<close>) and darwin
  (bytes \<open>// 1000 ** 2\<close>); on any other platform the function returns \<open>None\<close>.
\<close>

definition get_peak_memory_usage :: "env \<Rightarrow> nat \<Rightarrow> int option" where
  "get_peak_memory_usage e k =
     (case platform e of
        Linux \<Rightarrow> Some (ru_maxrss e k div 1000)
      | Darwin \<Rightarrow> Some (ru_maxrss e k div 1000 ^ 2)
      | Other \<Rightarrow> None)"

text \<open>
  The statement of \<open>_upsert_ngram_hits\<close> for one n-gram: insert the row, or on a
  conflict on \<open>(gram, lang)\<close> add the hits to the row that is there.
\<close>

fun upsert_row :: "gram_row list \<Rightarrow> pystr \<Rightarrow> pystr \<Rightarrow> nat \<Rightarrow> gram_row list" where
  "upsert_row [] ngram lang hits = [(ngram, lang, hits)]"
| "upsert_row ((g, l, h) # rows) ngram lang hits =
     (if g = ngram \<and> l = lang then (g, l, h + hits) # rows
      else (g, l, h) # upsert_row rows ngram lang hits)"

definition upsert_ngram_hits :: "ngram_cnt \<Rightarrow> gram_row list \<Rightarrow> gram_row list" where
  "upsert_ngram_hits cnt tbl =
     fold (\<lambda>(lang, d) t. fold (\<lambda>(ngram, hits) t'. upsert_row t' ngram lang hits) d t) cnt tbl"

definition insert_user_scores ::
  "((pystr \<times> pystr) \<times> nat) list \<Rightarrow> user_row list \<Rightarrow> user_row list" where
  "insert_user_scores score tbl = tbl @ map (\<lambda>((user, lang), hit). (user, lang, hit)) score"

text \<open>
  Lines 121 to 125, the loop over the window positions \<open>i\<close>. Reading
  \<open>lang_ngram_cnt[lang]\<close> creates the inner dictionary when the language is new,
  \<open>+= 1\<close> starts a new n-gram at 0. The pair is \<open>(lang_ngram_cnt, tot_ngrams)\<close>.
\<close>

fun count_ngrams ::
  "nat \<Rightarrow> pystr \<Rightarrow> pystr \<Rightarrow> nat list \<Rightarrow> ngram_cnt \<times> nat \<Rightarrow> ngram_cnt \<times> nat" where
  "count_ngrams n lang text [] (cnt, tot) = (cnt, tot)"
| "count_ngrams n lang text (i # is) (cnt, tot) =
     (let ngram = take n (drop i text);
          d = (case map_of cnt lang of None \<Rightarrow> [] | Some d \<Rightarrow> d);
          tot' = (if map_of d ngram = None then tot + 1 else tot);
          d' = AList.update ngram ((case map_of d ngram of None \<Rightarrow> 0 | Some c \<Rightarrow> c) + 1) d
      in count_ngrams n lang text is (AList.update lang d' cnt, tot'))"

text \<open>\<open>range(len(text) - n + 1)\<close>: empty when the text is shorter than \<open>n\<close>.\<close>

definition window_range :: "nat \<Rightarrow> pystr \<Rightarrow> nat list" where
  "window_range n text = [0 ..< length text + 1 - n]"

text \<open>
  Lines 103 and 104. \<open>fields[:4]\<close> is a slice and never raises; the assignment to four
  names raises \<open>ValueError\<close> when the slice has fewer than four items. Nothing in the
  \<open>try\<close> block raises \<open>IndexError\<close>, the only exception its handler catches, so the
  \<open>ValueError\<close> leaves the loop.
\<close>

definition unpack4 :: "pystr list \<Rightarrow> py_error + (pystr \<times> pystr \<times> pystr \<times> pystr)" where
  "unpack4 flds =
     (case take 4 flds of
        [sent_id, lang, text, user] \<Rightarrow> Inr (sent_id, lang, text, user)
      | _ \<Rightarrow> Inl UnpackValueError)"

definition parse_line :: "pystr \<Rightarrow> py_error + (pystr \<times> pystr \<times> pystr \<times> pystr)" where
  "parse_line line = unpack4 (split TAB (rstrip line))"

text \<open>The number of \<open>(language, n-gram)\<close> entries of a buffer.\<close>

definition entries :: "ngram_cnt \<Rightarrow> nat" where
  "entries cnt = sum_list (map (\<lambda>(lang, d). length d) cnt)"

text \<open>Lines 135 to 138: write the buffer to the table of this pass and empty it.\<close>

definition flush :: "nat \<Rightarrow> count_state \<Rightarrow> count_state" where
  "flush n s =
     s\<lparr>grams := (grams s)(n := upsert_ngram_hits (lang_ngram_cnt s) (grams s n)),
       lang_ngram_cnt := [],
       peak_tot_ngrams := Some (tot_ngrams s),
       tot_ngrams := 0,
       flushes := flushes s @ [(n, tot_ngrams s, entries (lang_ngram_cnt s))]\<rparr>"

text \<open>
  The condition of lines 128 to 134. \<open>and\<close> and \<open>or\<close> evaluate from the left and stop
  early: memory is read only while \<open>peak_tot_ngrams\<close> is \<open>None\<close>, and comparing the
  \<open>None\<close> of an unsupported platform with \<open>max_memory\<close> raises \<open>TypeError\<close>.
\<close>

definition flush_if_full :: "env \<Rightarrow> int \<Rightarrow> nat \<Rightarrow> count_state \<Rightarrow> py_error + count_state" where
  "flush_if_full e max_memory n s =
     (case peak_tot_ngrams s of
        None \<Rightarrow>
          (let s' = s\<lparr>probed := probed s @ [n]\<rparr> in
           case get_peak_memory_usage e (length (probed s)) of
             None \<Rightarrow> Inl CompareTypeError
           | Some m \<Rightarrow> if m \<ge> max_memory then Inr (flush n s') else Inr s')
      | Some peak \<Rightarrow> if tot_ngrams s \<ge> peak then Inr (flush n s) else Inr s)"

text \<open>
  Lines 102 to 114: the fields of the line and the two filters. \<open>Inr None\<close> is a
  \<open>continue\<close>, \<open>Inr (Some (lang, text, user))\<close> a sentence that is counted. The language
  is tested before \<open>int(sent_id)\<close> is evaluated.
\<close>

definition admit :: "env \<Rightarrow> int set \<Rightarrow> pystr \<Rightarrow> py_error + (pystr \<times> pystr \<times> pystr) option" where
  "admit e sentence_blacklist line =
     (case parse_line line of
        Inl err \<Rightarrow> Inl err
      | Inr (sent_id, lang, text, user) \<Rightarrow>
          if lang = NULL_LANG \<or> lang = [] then Inr None
          else
            (case to_int e sent_id of
               None \<Rightarrow> Inl IntValueError
             | Some i \<Rightarrow>
                 if i \<in> sentence_blacklist then Inr None else Inr (Some (lang, text, user))))"

text \<open>Lines 116 to 125: the score of the contributor, then the n-grams of the text.\<close>

definition accumulate :: "nat \<Rightarrow> pystr \<times> pystr \<times> pystr \<Rightarrow> count_state \<Rightarrow> count_state" where
  "accumulate n r s =
     (case r of (lang, text, user) \<Rightarrow>
        (let s1 =
               (if n = MIN_NGRAM_SIZE
                then s\<lparr>user_lang_score :=
                          AList.update (user, lang)
                            ((case map_of (user_lang_score s) (user, lang) of
                                None \<Rightarrow> 0 | Some v \<Rightarrow> v) + length text)
                            (user_lang_score s)\<rparr>
                else s);
             ct = count_ngrams n lang text (window_range n text)
                    (lang_ngram_cnt s1, tot_ngrams s1)
         in s1\<lparr>lang_ngram_cnt := fst ct, tot_ngrams := snd ct\<rparr>))"

text \<open>The body of the loop over the lines of the file, lines 101 to 138.\<close>

definition process_line ::
  "env \<Rightarrow> int set \<Rightarrow> int \<Rightarrow> nat \<Rightarrow> nat \<Rightarrow> pystr \<Rightarrow> count_state \<Rightarrow> py_error + count_state" where
  "process_line e sentence_blacklist max_memory n lid line s0 =
     (let s = s0\<lparr>line_id := Some lid, lines_read := lines_read s0 + 1\<rparr> in
      case admit e sentence_blacklist line of
        Inl err \<Rightarrow> Inl err
      | Inr None \<Rightarrow> Inr s
      | Inr (Some r) \<Rightarrow> flush_if_full e max_memory n (accumulate n r s))"

text \<open>\<open>for line_id, line in enumerate(f)\<close>: an exception ends the loop and the run.\<close>

fun read_lines ::
  "env \<Rightarrow> int set \<Rightarrow> int \<Rightarrow> nat \<Rightarrow> nat \<Rightarrow> pystr list \<Rightarrow> count_state \<Rightarrow> py_error + count_state" where
  "read_lines e bl max_memory n lid [] s = Inr s"
| "read_lines e bl max_memory n lid (line # rest) s =
     (case process_line e bl max_memory n lid line s of
        Inl err \<Rightarrow> Inl err
      | Inr s' \<Rightarrow> read_lines e bl max_memory n (Suc lid) rest s')"

text \<open>
  One turn of the loop over \<open>n\<close>, lines 97 to 145: a new buffer, the file opened and read
  from its first line, the status printed from \<open>line_id\<close> (unbound when no line has been
  read by then: \<open>UnboundLocalError\<close>), the rest of the buffer written. \<open>tot_ngrams\<close> and
  \<open>peak_tot_ngrams\<close> are set once before the loop over \<open>n\<close> (lines 93 and 94) and not
  here.
\<close>

definition count_pass ::
  "env \<Rightarrow> pystr list \<Rightarrow> int set \<Rightarrow> int \<Rightarrow> nat \<Rightarrow> count_state \<Rightarrow> py_error + count_state" where
  "count_pass e sentences bl max_memory n s0 =
     (case read_lines e bl max_memory n 0 sentences
             (s0\<lparr>lang_ngram_cnt := [], opens := opens s0 @ [n]\<rparr>) of
        Inl err \<Rightarrow> Inl err
      | Inr s \<Rightarrow>
          (case line_id s of
             None \<Rightarrow> Inl UnboundLocalError
           | Some _ \<Rightarrow>
               Inr (s\<lparr>grams := (grams s)(n := upsert_ngram_hits (lang_ngram_cnt s) (grams s n))\<rparr>)))"

fun count_passes ::
  "env \<Rightarrow> pystr list \<Rightarrow> int set \<Rightarrow> int \<Rightarrow> nat list \<Rightarrow> count_state \<Rightarrow> py_error + count_state" where
  "count_passes e sentences bl max_memory [] s = Inr s"
| "count_passes e sentences bl max_memory (n # ns) s =
     (case count_pass e sentences bl max_memory n s of
        Inl err \<Rightarrow> Inl err
      | Inr s' \<Rightarrow> count_passes e sentences bl max_memory ns s')"

text \<open>
  \<open>delete_file\<close> and \<open>_init_db\<close> leave an empty raw store; lines 93 to 95 set the
  counters.
\<close>

definition init_state :: count_state where
  "init_state =
     \<lparr>grams = (\<lambda>_. []), users_langs = [], tot_ngrams = 0, peak_tot_ngrams = None,
      user_lang_score = [], lang_ngram_cnt = [], line_id = None, opens = [],
      lines_read = 0, probed = [], flushes = []\<rparr>"

text \<open>\<open>range(MAX_NGRAM_SIZE, MIN_NGRAM_SIZE - 1, -1)\<close>.\<close>

definition ngram_sizes :: "nat list" where
  "ngram_sizes = rev [MIN_NGRAM_SIZE ..< MAX_NGRAM_SIZE + 1]"

text \<open>
  \<open>sentences\<close> are the lines of the file at \<open>sentences_detailed_path\<close>, as iterating the
  open file yields them (each with its line end).
\<close>

definition count :: "env \<Rightarrow> pystr list \<Rightarrow> int set \<Rightarrow> int \<Rightarrow> py_error + count_state" where
  "count e sentences sentence_blacklist max_memory =
     (case count_passes e sentences sentence_blacklist max_memory ngram_sizes init_state of
        Inl err \<Rightarrow> Inl err
      | Inr s \<Rightarrow> Inr (s\<lparr>users_langs := insert_user_scores (user_lang_score s) (users_langs s)\<rparr>))"


section \<open>TatodetectDB\<close>

definition IDEOGRAM_LANGS :: "pystr list" where
  "IDEOGRAM_LANGS = [str ''wuu'', str ''yue'', str ''cmn'']"

text \<open>
  The extraction computes \<open>CAST(hit AS FLOAT) / tot\<close> and compares it with a limit in
  SQLite, on IEEE doubles. The double-precision operations are not defined here; they are
  taken as given: \<open>fdiv hit tot\<close> is the quotient for \<open>tot \<noteq> 0\<close>, \<open>fgt\<close> is the comparison \<open>>\<close> on
  doubles, and the two limits are the doubles that the literals \<open>0.000005\<close> and
  \<open>0.00001\<close> denote.
\<close>

record 'f float_ops =
  fdiv :: "nat \<Rightarrow> nat \<Rightarrow> 'f"
  fgt :: "'f \<Rightarrow> 'f \<Rightarrow> bool"
  IDEOGRAM_NGRAM_FREQ_LIMIT :: 'f
  NGRAM_FREQ_LIMIT :: 'f

text \<open>\<open>SELECT SUM(hit) FROM grams<n> WHERE lang = :lang\<close>, a row of \<open>lang_ngram_tots\<close>.\<close>

definition total_hits :: "gram_row list \<Rightarrow> pystr \<Rightarrow> nat" where
  "total_hits tbl lang = sum_list (map (\<lambda>(g, l, h). h) (filter (\<lambda>(g, l, h). l = lang) tbl))"

text \<open>
  The \<open>INSERT INTO main.grams<n> SELECT ...\<close> of lines 262 to 285 for one table. A
  division by a total of zero gives \<open>NULL\<close> in SQLite, and a row whose \<open>percent\<close> is
  \<open>NULL\<close> does not pass the \<open>WHERE\<close>.
\<close>

definition key_ngrams :: "'f float_ops \<Rightarrow> gram_row list \<Rightarrow> (pystr \<times> pystr \<times> nat \<times> 'f) list" where
  "key_ngrams fl tbl =
     map (\<lambda>(gram, lang, hit). (gram, lang, hit, fdiv fl hit (total_hits tbl lang)))
       (filter (\<lambda>(gram, lang, hit).
                  total_hits tbl lang \<noteq> 0 \<and>
                  fgt fl (fdiv fl hit (total_hits tbl lang))
                    (if lang \<in> set IDEOGRAM_LANGS then IDEOGRAM_NGRAM_FREQ_LIMIT fl
                     else NGRAM_FREQ_LIMIT fl))
          tbl)"

record 'f final_store =
  key_grams :: "nat \<Rightarrow> (pystr \<times> pystr \<times> nat \<times> 'f) list"
  key_users :: "user_row list"

text \<open>
  \<open>extract_key_content_from\<close>, from the tables of the raw store. The final store is new
  and empty (\<open>delete_file\<close>, \<open>_init_db\<close>). \<open>CREATE UNIQUE INDEX ... ON
  users_langs(lang, user)\<close> fails with \<open>IntegrityError\<close> when two of the copied rows have
  the same language and user; this is before \<open>conn.commit()\<close>.
\<close>

definition extract_key_content_from ::
  "'f float_ops \<Rightarrow> (nat \<Rightarrow> gram_row list) \<Rightarrow> user_row list \<Rightarrow> py_error + 'f final_store" where
  "extract_key_content_from fl raw_grams raw_users_langs =
     (let kg = (\<lambda>n. if MIN_NGRAM_SIZE \<le> n \<and> n \<le> MAX_NGRAM_SIZE
                     then key_ngrams fl (raw_grams n) else []);
          ku = filter (\<lambda>(user, lang, total). total > MIN_USER_CONTRIB_IN_LANG) raw_users_langs
      in if distinct (map (\<lambda>(user, lang, total). (lang, user)) ku)
         then Inr \<lparr>key_grams = kg, key_users = ku\<rparr>
         else Inl IntegrityError)"

section \<open>The blacklist and the command line\<close>

definition unpack2 :: "pystr list \<Rightarrow> py_error + (pystr \<times> pystr)" where
  "unpack2 flds =
     (case flds of
        [sentence_id, tag] \<Rightarrow> Inr (sentence_id, tag)
      | _ \<Rightarrow> Inl UnpackValueError)"

text \<open>The loop of lines 357 to 360 over the lines of the tags file.\<close>

fun read_tags :: "env \<Rightarrow> pystr \<Rightarrow> pystr list \<Rightarrow> int set \<Rightarrow> py_error + int set" where
  "read_tags e tag_name [] tagged = Inr tagged"
| "read_tags e tag_name (line # rest) tagged =
     (case unpack2 (split TAB (rstrip line)) of
        Inl err \<Rightarrow> Inl err
      | Inr (sentence_id, tag) \<Rightarrow>
          if tag = tag_name
          then (case to_int e sentence_id of
                  None \<Rightarrow> Inl IntValueError
                | Some i \<Rightarrow> read_tags e tag_name rest (insert i tagged))
          else read_tags e tag_name rest tagged)"

text \<open>
  \<open>get_sentences_with_tag\<close>. \<open>files\<close> maps a path to the lines of the file there,
  \<open>None\<close> when there is no such file. \<open>open(None, ...)\<close> raises \<open>TypeError\<close>, a missing
  file \<open>FileNotFoundError\<close>, an assignment of other than two fields to two names
  \<open>ValueError\<close>, and so does \<open>int\<close>. The handler is for \<open>IndexError\<close>, which none of
  these is, so each of them leaves the function.
\<close>

definition get_sentences_with_tag ::
  "env \<Rightarrow> (pystr \<Rightarrow> pystr list option) \<Rightarrow> pystr option \<Rightarrow> pystr \<Rightarrow> py_error + int set" where
  "get_sentences_with_tag e files tags_path tag_name =
     (case tags_path of
        None \<Rightarrow> Inl OpenTypeError
      | Some p \<Rightarrow>
          (case files p of
             None \<Rightarrow> Inl FileNotFoundError
           | Some lines \<Rightarrow> read_tags e tag_name lines {}))"

definition CHANGE_FLAG :: pystr where
  "CHANGE_FLAG = str ''@change flag''"

text \<open>
  \<open>main\<close>, with \<open>argv\<close> for \<open>sys.argv\<close>. \<open>sys.argv[3]\<close> raises \<open>IndexError\<close> when there
  are three arguments or fewer and \<open>tags_path\<close> becomes \<open>None\<close>. Deleting the raw store
  at the end does not change the result.
\<close>

definition main ::
  "'f float_ops \<Rightarrow> env \<Rightarrow> (pystr \<Rightarrow> pystr list option) \<Rightarrow> pystr list \<Rightarrow>
     py_error + 'f final_store" where
  "main fl e files argv =
     (if length argv < 3 then Inl SystemExit
      else
        (let sentences_detailed_path = argv ! 1;
             tags_path = (if 3 < length argv then Some (argv ! 3) else None)
         in case get_sentences_with_tag e files tags_path CHANGE_FLAG of
              Inl err \<Rightarrow> Inl err
            | Inr sentence_blacklist \<Rightarrow>
                (case files sentences_detailed_path of
                   None \<Rightarrow> Inl FileNotFoundError
                 | Some sentences \<Rightarrow>
                     (case count e sentences sentence_blacklist 500 of
                        Inl err \<Rightarrow> Inl err
                      | Inr s \<Rightarrow> extract_key_content_from fl (grams s) (users_langs s)))))"

section \<open>What the claims speak of\<close>

text \<open>
  \<open>SELECT hit FROM grams<n> WHERE gram = :gram AND lang = :lang\<close>: the count stored for
  an n-gram of a language, \<open>None\<close> when there is no row.
\<close>

fun lookup_hit :: "gram_row list \<Rightarrow> pystr \<Rightarrow> pystr \<Rightarrow> nat option" where
  "lookup_hit [] gram lang = None"
| "lookup_hit ((g, l, h) # rows) gram lang =
     (if g = gram \<and> l = lang then Some h else lookup_hit rows gram lang)"

definition hits :: "gram_row list \<Rightarrow> pystr \<Rightarrow> pystr \<Rightarrow> nat" where
  "hits tbl gram lang = (case lookup_hit tbl gram lang of None \<Rightarrow> 0 | Some h \<Rightarrow> h)"

definition buffered :: "ngram_cnt \<Rightarrow> pystr \<Rightarrow> pystr \<Rightarrow> nat" where
  "buffered cnt lang gram =
     (case map_of cnt lang of None \<Rightarrow> 0
      | Some d \<Rightarrow> (case map_of d gram of None \<Rightarrow> 0 | Some c \<Rightarrow> c))"

definition buffered_total :: "ngram_cnt \<Rightarrow> pystr \<Rightarrow> nat" where
  "buffered_total cnt lang =
     (case map_of cnt lang of None \<Rightarrow> 0 | Some d \<Rightarrow> sum_list (map snd d))"

text \<open>A buffer is well formed: one entry per key at both levels, every count positive.\<close>

definition wf_cnt :: "ngram_cnt \<Rightarrow> bool" where
  "wf_cnt cnt \<longleftrightarrow>
     distinct (map fst cnt) \<and>
     (\<forall>(l, d) \<in> set cnt. distinct (map fst d) \<and> (\<forall>(g, c) \<in> set d. 0 < c))"

text \<open>A table is well formed: \<open>UNIQUE("gram","lang")\<close> holds and every hit is positive.\<close>

definition tbl_ok :: "gram_row list \<Rightarrow> bool" where
  "tbl_ok tbl \<longleftrightarrow>
     distinct (map (\<lambda>(g, l, h). (g, l)) tbl) \<and> (\<forall>(g, l, h) \<in> set tbl. 0 < h)"

definition st_ok :: "count_state \<Rightarrow> bool" where
  "st_ok s \<longleftrightarrow> wf_cnt (lang_ngram_cnt s) \<and> (\<forall>n. tbl_ok (grams s n))"

text \<open>One turn of the loop of \<open>count_ngrams\<close>, on the buffer alone.\<close>

definition bump :: "nat \<Rightarrow> pystr \<Rightarrow> pystr \<Rightarrow> nat \<Rightarrow> ngram_cnt \<Rightarrow> ngram_cnt" where
  "bump n lang text i cnt =
     (let ngram = take n (drop i text);
          d = (case map_of cnt lang of None \<Rightarrow> [] | Some d \<Rightarrow> d)
      in AList.update lang
           (AList.update ngram ((case map_of d ngram of None \<Rightarrow> 0 | Some c \<Rightarrow> c) + 1) d) cnt)"

text \<open>The number of windows of length \<open>n\<close> of a text that hold a given n-gram.\<close>

definition occurrences :: "nat \<Rightarrow> pystr \<Rightarrow> pystr \<Rightarrow> nat" where
  "occurrences n gram text =
     length (filter (\<lambda>i. take n (drop i text) = gram) (window_range n text))"

text \<open>
  The admitted sentences of a corpus, as \<open>(lang, text, user)\<close> in file order: the lines
  that \<open>admit\<close> lets through.
\<close>

fun admitted :: "env \<Rightarrow> int set \<Rightarrow> pystr list \<Rightarrow> (pystr \<times> pystr \<times> pystr) list" where
  "admitted e bl [] = []"
| "admitted e bl (line # rest) =
     (case admit e bl line of
        Inr (Some r) \<Rightarrow> r # admitted e bl rest
      | _ \<Rightarrow> admitted e bl rest)"

definition ngram_count :: "nat \<Rightarrow> pystr \<Rightarrow> pystr \<Rightarrow> (pystr \<times> pystr \<times> pystr) list \<Rightarrow> nat" where
  "ngram_count n gram lang rs =
     sum_list (map (\<lambda>(l, text, user). if l = lang then occurrences n gram text else 0) rs)"

definition window_count :: "nat \<Rightarrow> pystr \<Rightarrow> (pystr \<times> pystr \<times> pystr) list \<Rightarrow> nat" where
  "window_count n lang rs =
     sum_list (map (\<lambda>(l, text, user). if l = lang then length text + 1 - n else 0) rs)"

text \<open>
  The number of valid windows in the words of the specification,
  \<open>max(0, len(text) - n + 1)\<close>, summed over the sentences of a language.
\<close>

definition valid_windows :: "nat \<Rightarrow> pystr \<Rightarrow> int" where
  "valid_windows n text = max 0 (int (length text) - int n + 1)"

definition total_windows :: "nat \<Rightarrow> pystr \<Rightarrow> (pystr \<times> pystr \<times> pystr) list \<Rightarrow> int" where
  "total_windows n lang rs =
     sum_list (map (\<lambda>(l, text, user). valid_windows n text) (filter (\<lambda>(l, text, user). l = lang) rs))"

text \<open>What a pass has counted so far for a key: in the table and in the buffer.\<close>

definition pot_hits :: "nat \<Rightarrow> pystr \<Rightarrow> pystr \<Rightarrow> count_state \<Rightarrow> nat" where
  "pot_hits n g l s = hits (grams s n) g l + buffered (lang_ngram_cnt s) l g"

definition pot_total :: "nat \<Rightarrow> pystr \<Rightarrow> count_state \<Rightarrow> nat" where
  "pot_total n l s = total_hits (grams s n) l + buffered_total (lang_ngram_cnt s) l"

text \<open>Line 118 on the dictionary of scores, and the rows that the scores of a corpus give.\<close>

definition add_score ::
  "pystr \<times> pystr \<times> pystr \<Rightarrow> ((pystr \<times> pystr) \<times> nat) list \<Rightarrow> ((pystr \<times> pystr) \<times> nat) list" where
  "add_score r score =
     (case r of (lang, text, user) \<Rightarrow>
        AList.update (user, lang)
          ((case map_of score (user, lang) of None \<Rightarrow> 0 | Some v \<Rightarrow> v) + length text) score)"

definition scores :: "(pystr \<times> pystr \<times> pystr) list \<Rightarrow> user_row list" where
  "scores rs = insert_user_scores (fold add_score rs []) []"

text \<open>
  Flush batches: the buffer that the sentences of one batch leave, by \<open>accumulate\<close>, and
  the table after the buffers of a list of batches have been written one after the other,
  by \<open>upsert_ngram_hits\<close>.
\<close>

definition batch_buffer :: "nat \<Rightarrow> (pystr \<times> pystr \<times> pystr) list \<Rightarrow> ngram_cnt" where
  "batch_buffer n rs = lang_ngram_cnt (fold (accumulate n) rs init_state)"

definition merge_batches ::
  "nat \<Rightarrow> (pystr \<times> pystr \<times> pystr) list list \<Rightarrow> gram_row list \<Rightarrow> gram_row list" where
  "merge_batches n batches tbl = fold (\<lambda>b t. upsert_ngram_hits (batch_buffer n b) t) batches tbl"

section \<open>Example inputs\<close>

text \<open>
  \<open>int\<close> on a string of ASCII digits; used in the examples only, where every string it
  is applied to is either such a string or one that \<open>int\<close> rejects as well.
\<close>

definition int_of_digits :: "pystr \<Rightarrow> int option" where
  "int_of_digits s =
     (if s \<noteq> [] \<and> list_all (\<lambda>c. 48 \<le> c \<and> c \<le> 57) s
      then Some (foldl (\<lambda>a c. 10 * a + int (c - 48)) 0 s) else None)"

text \<open>A linux host whose peak memory is 600 MB at every reading, above the ceiling of 500.\<close>

definition ex_env :: env where
  "ex_env = \<lparr>to_int = int_of_digits, platform = Linux, ru_maxrss = (\<lambda>_. 600000)\<rparr>"

definition ex_line1 :: pystr where
  "ex_line1 = str ''1'' @ [9] @ str ''eng'' @ [9] @ str ''ab'' @ [9] @ str ''u1'' @ [10]"

definition ex_line2 :: pystr where
  "ex_line2 = str ''2'' @ [9] @ str ''eng'' @ [9] @ str ''ab'' @ [9] @ str ''u1'' @ [10]"

definition ex_line3 :: pystr where
  "ex_line3 = str ''3'' @ [9] @ [92, 78] @ [9] @ str ''xx'' @ [9] @ str ''u2'' @ [10]"

definition ex_corpus :: "pystr list" where
  "ex_corpus = [ex_line1, ex_line2, ex_line3]"

text \<open>Two fields only; and four fields of which the first is not a number.\<close>

definition ex_short_line :: pystr where
  "ex_short_line = str ''1'' @ [9] @ str ''eng'' @ [10]"

definition ex_bad_id_line :: pystr where
  "ex_bad_id_line = str ''x'' @ [9] @ str ''eng'' @ [9] @ str ''ab'' @ [9] @ str ''u1'' @ [10]"

definition ex_long_line :: pystr where
  "ex_long_line = str ''1'' @ [9] @ str ''eng'' @ [9] @ str ''abcdef'' @ [9] @ str ''u1'' @ [10]"

section \<open>Lemmas about the model\<close>

lemma lookup_hit_upsert_row:
  "lookup_hit (upsert_row tbl g l h) g' l' =
     (if g' = g \<and> l' = l then Some (hits tbl g l + h) else lookup_hit tbl g' l')"
  by (induction tbl g l h rule: upsert_row.induct) (auto simp: hits_def)

lemma hits_upsert_row:
  "hits (upsert_row tbl g l h) g' l' = hits tbl g' l' + (if g' = g \<and> l' = l then h else 0)"
  by (simp add: hits_def lookup_hit_upsert_row)

lemma total_hits_upsert_row:
  "total_hits (upsert_row tbl g l h) l' = total_hits tbl l' + (if l' = l then h else 0)"
  by (induction tbl g l h rule: upsert_row.induct) (auto simp: total_hits_def)

lemma hits_fold_inner:
  "distinct (map fst d) \<Longrightarrow>
   hits (fold (\<lambda>(ngram, h) t. upsert_row t ngram l h) d tbl) g' l' =
     hits tbl g' l' + (if l' = l then (case map_of d g' of None \<Rightarrow> 0 | Some c \<Rightarrow> c) else 0)"
proof (induction d arbitrary: tbl)
  case Nil
  then show ?case by simp
next
  case (Cons p d)
  obtain g h where p: "p = (g, h)" by (cases p)
  from Cons.prems have dd: "distinct (map fst d)" and nin: "g \<notin> fst ` set d"
    by (auto simp: p)
  from nin have none: "map_of d g = None" by (simp add: map_of_eq_None_iff)
  show ?case
    using Cons.IH[OF dd, of "upsert_row tbl g l h"] none
    by (auto simp: p hits_upsert_row)
qed

lemma total_hits_fold_inner:
  "total_hits (fold (\<lambda>(ngram, h) t. upsert_row t ngram l h) d tbl) l' =
     total_hits tbl l' + (if l' = l then sum_list (map snd d) else 0)"
proof (induction d arbitrary: tbl)
  case Nil
  then show ?case by simp
next
  case (Cons p d)
  obtain g h where p: "p = (g, h)" by (cases p)
  show ?case
    using Cons.IH[of "upsert_row tbl g l h"]
    by (auto simp: p total_hits_upsert_row)
qed

lemma wf_cnt_Cons:
  "wf_cnt ((l, d) # cnt) \<Longrightarrow> wf_cnt cnt \<and> map_of cnt l = None \<and> distinct (map fst d)"
  by (auto simp: wf_cnt_def map_of_eq_None_iff)

lemma hits_upsert_ngram_hits:
  "wf_cnt cnt \<Longrightarrow> hits (upsert_ngram_hits cnt tbl) g l = hits tbl g l + buffered cnt l g"
proof (induction cnt arbitrary: tbl)
  case Nil
  then show ?case by (simp add: upsert_ngram_hits_def buffered_def)
next
  case (Cons p cnt)
  obtain l0 d where p: "p = (l0, d)" by (cases p)
  from Cons.prems wf_cnt_Cons[of l0 d cnt]
  have wf: "wf_cnt cnt" and none: "map_of cnt l0 = None" and dd: "distinct (map fst d)"
    by (auto simp: p)
  have step: "upsert_ngram_hits ((l0, d) # cnt) tbl =
      upsert_ngram_hits cnt (fold (\<lambda>(ngram, h) t. upsert_row t ngram l0 h) d tbl)"
    by (simp add: upsert_ngram_hits_def)
  show ?case
    using Cons.IH[OF wf, of "fold (\<lambda>(ngram, h) t. upsert_row t ngram l0 h) d tbl"] none
    by (auto simp: step hits_fold_inner[OF dd] buffered_def p)
qed

lemma total_hits_upsert_ngram_hits:
  "wf_cnt cnt \<Longrightarrow>
   total_hits (upsert_ngram_hits cnt tbl) l = total_hits tbl l + buffered_total cnt l"
proof (induction cnt arbitrary: tbl)
  case Nil
  then show ?case by (simp add: upsert_ngram_hits_def buffered_total_def)
next
  case (Cons p cnt)
  obtain l0 d where p: "p = (l0, d)" by (cases p)
  from Cons.prems wf_cnt_Cons[of l0 d cnt]
  have wf: "wf_cnt cnt" and none: "map_of cnt l0 = None"
    by (auto simp: p)
  have step: "upsert_ngram_hits ((l0, d) # cnt) tbl =
      upsert_ngram_hits cnt (fold (\<lambda>(ngram, h) t. upsert_row t ngram l0 h) d tbl)"
    by (simp add: upsert_ngram_hits_def)
  show ?case
    using Cons.IH[OF wf, of "fold (\<lambda>(ngram, h) t. upsert_row t ngram l0 h) d tbl"] none
    by (auto simp: step total_hits_fold_inner buffered_total_def p)
qed

lemma set_update_subset: "set (AList.update k v al) \<subseteq> insert (k, v) (set al)"
  by (induction al) auto

lemma in_set_updateD:
  "x \<in> set (AList.update k v al) \<Longrightarrow> x = (k, v) \<or> x \<in> set al"
  using set_update_subset[of k v al] by auto

lemma sum_list_update_incr:
  "sum_list (map snd (AList.update k ((case map_of d k of None \<Rightarrow> 0 | Some c \<Rightarrow> c) + 1) d)) =
     sum_list (map snd d) + (1::nat)"
  by (induction d) auto

lemma fst_count_ngrams_tot:
  "fst (count_ngrams n lang text is (cnt, tot)) = fst (count_ngrams n lang text is (cnt, tot'))"
  by (induction "is" arbitrary: cnt tot tot') (auto simp: Let_def)

lemma fst_count_ngrams:
  "fst (count_ngrams n lang text is (cnt, tot)) = fold (bump n lang text) is cnt"
proof (induction "is" arbitrary: cnt tot)
  case Nil
  then show ?case by simp
next
  case (Cons i "is")
  show ?case
    using Cons.IH fst_count_ngrams_tot
    by (simp add: Let_def bump_def)
qed

lemma wf_cnt_lookup:
  "wf_cnt cnt \<Longrightarrow> map_of cnt l = Some d \<Longrightarrow> distinct (map fst d) \<and> (\<forall>(g, c) \<in> set d. 0 < c)"
  by (auto simp: wf_cnt_def dest!: map_of_SomeD)

lemma wf_cnt_bump: "wf_cnt cnt \<Longrightarrow> wf_cnt (bump n lang text i cnt)"
proof -
  assume wf: "wf_cnt cnt"
  define d where "d = (case map_of cnt lang of None \<Rightarrow> [] | Some d \<Rightarrow> d)"
  define ngram where "ngram = take n (drop i text)"
  define d' where "d' = AList.update ngram ((case map_of d ngram of None \<Rightarrow> 0 | Some c \<Rightarrow> c) + 1) d"
  have b: "bump n lang text i cnt = AList.update lang d' cnt"
    by (simp add: bump_def Let_def d_def d'_def ngram_def)
  have d: "distinct (map fst d) \<and> (\<forall>(g, c) \<in> set d. 0 < c)"
  proof (cases "map_of cnt lang")
    case None
    then show ?thesis by (simp add: d_def)
  next
    case (Some d0)
    with wf_cnt_lookup[OF wf Some] show ?thesis by (simp add: d_def)
  qed
  have d'1: "distinct (map fst d')"
    using d by (simp add: d'_def distinct_update)
  have d'2: "\<forall>(g, c) \<in> set d'. 0 < c"
    using d unfolding d'_def by (fastforce dest!: in_set_updateD)
  show ?thesis
    unfolding b wf_cnt_def
    using wf d'1 d'2 unfolding wf_cnt_def
    by (fastforce simp: distinct_update dest!: in_set_updateD)
qed

lemma wf_cnt_fold_bump: "wf_cnt cnt \<Longrightarrow> wf_cnt (fold (bump n lang text) is cnt)"
  by (induction "is" arbitrary: cnt) (auto simp: wf_cnt_bump)

lemma buffered_bump:
  "buffered (bump n lang text i cnt) l g =
     buffered cnt l g + (if l = lang \<and> take n (drop i text) = g then 1 else 0)"
  by (auto simp: bump_def buffered_def Let_def update_conv' split: option.splits)

lemma sum_list_update_None:
  "map_of d k = None \<Longrightarrow> sum_list (map snd (AList.update k v d)) = sum_list (map snd d) + (v::nat)"
  by (induction d) (auto split: if_splits)

lemma sum_list_update_Some:
  "map_of d k = Some c \<Longrightarrow>
     sum_list (map snd (AList.update k (Suc c) d)) = Suc (sum_list (map snd d))"
  by (induction d) (auto split: if_splits)

lemma buffered_total_bump:
  "buffered_total (bump n lang text i cnt) l =
     buffered_total cnt l + (if l = lang then 1 else 0)"
  by (auto simp: bump_def buffered_total_def Let_def update_conv' sum_list_update_None
      sum_list_update_Some split: option.splits)

lemma buffered_fold_bump:
  "buffered (fold (bump n lang text) is cnt) l g =
     buffered cnt l g + (if l = lang then length (filter (\<lambda>i. take n (drop i text) = g) is) else 0)"
  by (induction "is" arbitrary: cnt) (auto simp: buffered_bump)

lemma buffered_total_fold_bump:
  "buffered_total (fold (bump n lang text) is cnt) l =
     buffered_total cnt l + (if l = lang then length is else 0)"
  by (induction "is" arbitrary: cnt) (auto simp: buffered_total_bump)

lemma buffered_Nil [simp]: "buffered [] l g = 0" "buffered_total [] l = 0" "wf_cnt []"
  by (simp_all add: buffered_def buffered_total_def wf_cnt_def)

lemma accumulate_cnt:
  "lang_ngram_cnt (accumulate n (lang, text, user) s) =
     fold (bump n lang text) (window_range n text) (lang_ngram_cnt s)"
  by (simp add: accumulate_def Let_def fst_count_ngrams)

lemma accumulate_grams [simp]: "grams (accumulate n r s) = grams s"
  by (cases r) (simp add: accumulate_def Let_def)

lemma accumulate_wf: "wf_cnt (lang_ngram_cnt s) \<Longrightarrow> wf_cnt (lang_ngram_cnt (accumulate n r s))"
  by (cases r) (simp add: accumulate_cnt wf_cnt_fold_bump)

lemma accumulate_pot_hits:
  "pot_hits n g l (accumulate n (lang, text, user) s) =
     pot_hits n g l s + (if l = lang then occurrences n g text else 0)"
  by (simp add: pot_hits_def accumulate_cnt buffered_fold_bump occurrences_def)

lemma accumulate_pot_total:
  "pot_total n l (accumulate n (lang, text, user) s) =
     pot_total n l s + (if l = lang then length text + 1 - n else 0)"
  by (simp add: pot_total_def accumulate_cnt buffered_total_fold_bump window_range_def)

lemma flush_pot:
  assumes "wf_cnt (lang_ngram_cnt s)"
  shows "pot_hits n g l (flush n s) = pot_hits n g l s"
    and "pot_total n l (flush n s) = pot_total n l s"
    and "wf_cnt (lang_ngram_cnt (flush n s))"
    and "m \<noteq> n \<Longrightarrow> grams (flush n s) m = grams s m"
  using assms
  by (simp_all add: flush_def pot_hits_def pot_total_def hits_upsert_ngram_hits
      total_hits_upsert_ngram_hits)

lemma flush_if_full_pot:
  assumes "flush_if_full e mm n s = Inr s'" and "wf_cnt (lang_ngram_cnt s)"
  shows "pot_hits n g l s' = pot_hits n g l s"
    and "pot_total n l s' = pot_total n l s"
    and "wf_cnt (lang_ngram_cnt s')"
    and "m \<noteq> n \<Longrightarrow> grams s' m = grams s m"
proof -
  define sp where "sp = s\<lparr>probed := probed s @ [n]\<rparr>"
  have wfp: "wf_cnt (lang_ngram_cnt sp)" using assms(2) by (simp add: sp_def)
  have eqp: "pot_hits n g l sp = pot_hits n g l s" "pot_total n l sp = pot_total n l s"
    "grams sp = grams s" "lang_ngram_cnt sp = lang_ngram_cnt s"
    by (simp_all add: sp_def pot_hits_def pot_total_def)
  from assms(1) have cases: "s' = s \<or> s' = flush n s \<or> s' = sp \<or> s' = flush n sp"
    by (auto simp: flush_if_full_def Let_def sp_def split: option.splits if_splits)
  show "pot_hits n g l s' = pot_hits n g l s"
    using cases flush_pot(1)[OF assms(2)] flush_pot(1)[OF wfp] eqp by auto
  show "pot_total n l s' = pot_total n l s"
    using cases flush_pot(2)[OF assms(2)] flush_pot(2)[OF wfp] eqp by auto
  show "wf_cnt (lang_ngram_cnt s')"
    using cases flush_pot(3)[OF assms(2)] flush_pot(3)[OF wfp] wfp assms(2) by auto
  show "m \<noteq> n \<Longrightarrow> grams s' m = grams s m"
    using cases flush_pot(4)[OF assms(2)] flush_pot(4)[OF wfp] eqp by auto
qed

lemma process_line_pot:
  assumes "process_line e bl mm n lid line s = Inr s'" and "wf_cnt (lang_ngram_cnt s)"
  shows "pot_hits n g l s' = pot_hits n g l s + ngram_count n g l (admitted e bl [line])"
    and "pot_total n l s' = pot_total n l s + window_count n l (admitted e bl [line])"
    and "wf_cnt (lang_ngram_cnt s')"
    and "m \<noteq> n \<Longrightarrow> grams s' m = grams s m"
proof -
  define s1 where "s1 = s\<lparr>line_id := Some lid, lines_read := lines_read s + 1\<rparr>"
  have s1: "pot_hits n g l s1 = pot_hits n g l s" "pot_total n l s1 = pot_total n l s"
    "grams s1 = grams s" "wf_cnt (lang_ngram_cnt s1)"
    using assms(2) by (simp_all add: s1_def pot_hits_def pot_total_def)
  have goal: "pot_hits n g l s' = pot_hits n g l s + ngram_count n g l (admitted e bl [line])
      \<and> pot_total n l s' = pot_total n l s + window_count n l (admitted e bl [line])
      \<and> wf_cnt (lang_ngram_cnt s') \<and> (m \<noteq> n \<longrightarrow> grams s' m = grams s m)"
  proof (cases "admit e bl line")
    case (Inl err)
    with assms(1) show ?thesis by (simp add: process_line_def Let_def)
  next
    case (Inr ro)
    show ?thesis
    proof (cases ro)
      case None
      with Inr assms(1) have "s' = s1" by (simp add: process_line_def Let_def s1_def)
      then show ?thesis using s1 Inr None by (simp add: ngram_count_def window_count_def)
    next
      case (Some r)
      obtain lang tx user where r: "r = (lang, tx, user)" by (cases r)
      from Inr Some assms(1) have f: "flush_if_full e mm n (accumulate n r s1) = Inr s'"
        by (simp add: process_line_def Let_def s1_def)
      have wfa: "wf_cnt (lang_ngram_cnt (accumulate n r s1))"
        using s1(4) by (rule accumulate_wf)
      show ?thesis
        using flush_if_full_pot[OF f wfa] Inr Some s1
        by (simp add: r accumulate_pot_hits accumulate_pot_total ngram_count_def window_count_def)
    qed
  qed
  from goal show "pot_hits n g l s' = pot_hits n g l s + ngram_count n g l (admitted e bl [line])"
    and "pot_total n l s' = pot_total n l s + window_count n l (admitted e bl [line])"
    and "wf_cnt (lang_ngram_cnt s')"
    and "m \<noteq> n \<Longrightarrow> grams s' m = grams s m"
    by auto
qed

lemma admitted_Cons: "admitted e bl (line # ls) = admitted e bl [line] @ admitted e bl ls"
  by (auto split: sum.splits option.splits)

lemma ngram_count_append [simp]:
  "ngram_count n g l (xs @ ys) = ngram_count n g l xs + ngram_count n g l ys"
  by (simp add: ngram_count_def)

lemma window_count_append [simp]:
  "window_count n l (xs @ ys) = window_count n l xs + window_count n l ys"
  by (simp add: window_count_def)

lemma read_lines_pot:
  assumes "read_lines e bl mm n lid ls s = Inr s'" and "wf_cnt (lang_ngram_cnt s)"
  shows "pot_hits n g l s' = pot_hits n g l s + ngram_count n g l (admitted e bl ls)
       \<and> pot_total n l s' = pot_total n l s + window_count n l (admitted e bl ls)
       \<and> wf_cnt (lang_ngram_cnt s') \<and> (m \<noteq> n \<longrightarrow> grams s' m = grams s m)"
  using assms
proof (induction ls arbitrary: s lid)
  case Nil
  then show ?case by (simp add: ngram_count_def window_count_def)
next
  case (Cons line ls)
  from Cons.prems(1) obtain s1 where
    a: "process_line e bl mm n lid line s = Inr s1" and
    b: "read_lines e bl mm n (Suc lid) ls s1 = Inr s'"
    by (auto split: sum.splits)
  note p = process_line_pot[OF a Cons.prems(2)]
  from Cons.IH[OF b p(3)] p(1)[of g l] p(2)[of l] p(4)[of m]
  show ?case
    by (simp add: admitted_Cons[of e bl line ls] del: admitted.simps)
qed

lemma keys_upsert_row:
  "(\<lambda>(g, l, h). (g, l)) ` set (upsert_row tbl g l h) = insert (g, l) ((\<lambda>(g, l, h). (g, l)) ` set tbl)"
  by (induction tbl g l h rule: upsert_row.induct) auto

lemma tbl_ok_upsert_row: "tbl_ok tbl \<Longrightarrow> 0 < h \<Longrightarrow> tbl_ok (upsert_row tbl g l h)"
proof (induction tbl g l h rule: upsert_row.induct)
  case (1 ngram lang hits)
  then show ?case by (simp add: tbl_ok_def)
next
  case (2 g l h rows ngram lang hits)
  show ?case
  proof (cases "g = ngram \<and> l = lang")
    case True
    with "2.prems" show ?thesis by (auto simp: tbl_ok_def)
  next
    case False
    from "2.prems" have ok: "tbl_ok rows" by (auto simp: tbl_ok_def)
    from "2.IH"[OF False ok "2.prems"(2)] have ih: "tbl_ok (upsert_row rows ngram lang hits)" .
    from "2.prems" have nin: "(g, l) \<notin> (\<lambda>(g, l, h). (g, l)) ` set rows" and h: "0 < h"
      by (auto simp: tbl_ok_def)
    from nin False have "(g, l) \<notin> (\<lambda>(g, l, h). (g, l)) ` set (upsert_row rows ngram lang hits)"
      unfolding keys_upsert_row by auto
    with ih h False show ?thesis by (auto simp: tbl_ok_def)
  qed
qed

lemma tbl_ok_fold_inner:
  "tbl_ok tbl \<Longrightarrow> \<forall>(g, c) \<in> set d. 0 < c \<Longrightarrow>
   tbl_ok (fold (\<lambda>(ngram, h) t. upsert_row t ngram l h) d tbl)"
  by (induction d arbitrary: tbl) (auto simp: tbl_ok_upsert_row)

lemma tbl_ok_upsert_ngram_hits:
  "wf_cnt cnt \<Longrightarrow> tbl_ok tbl \<Longrightarrow> tbl_ok (upsert_ngram_hits cnt tbl)"
proof (induction cnt arbitrary: tbl)
  case Nil
  then show ?case by (simp add: upsert_ngram_hits_def)
next
  case (Cons p cnt)
  obtain l0 d where p: "p = (l0, d)" by (cases p)
  from Cons.prems(1) have wf: "wf_cnt cnt" and pos: "\<forall>(g, c) \<in> set d. 0 < c"
    by (auto simp: p wf_cnt_def)
  have step: "upsert_ngram_hits ((l0, d) # cnt) tbl =
      upsert_ngram_hits cnt (fold (\<lambda>(ngram, h) t. upsert_row t ngram l0 h) d tbl)"
    by (simp add: upsert_ngram_hits_def)
  show ?case
    unfolding p step
    by (rule Cons.IH[OF wf tbl_ok_fold_inner[OF Cons.prems(2) pos]])
qed

lemma lookup_hit_iff: "tbl_ok tbl \<Longrightarrow> lookup_hit tbl g l = Some h \<longleftrightarrow> (g, l, h) \<in> set tbl"
  by (induction tbl) (auto simp: tbl_ok_def rev_image_eqI split: if_splits)

lemma lookup_hit_pos: "tbl_ok tbl \<Longrightarrow> lookup_hit tbl g l = Some h \<Longrightarrow> 0 < h"
  by (auto simp: lookup_hit_iff) (auto simp: tbl_ok_def)

lemma lookup_hit_hits:
  "tbl_ok tbl \<Longrightarrow> lookup_hit tbl g l = (if 0 < hits tbl g l then Some (hits tbl g l) else None)"
  using lookup_hit_pos[of tbl g l] by (cases "lookup_hit tbl g l") (auto simp: hits_def)

lemma st_ok_flush: "st_ok s \<Longrightarrow> st_ok (flush n s)"
  by (simp add: st_ok_def flush_def tbl_ok_upsert_ngram_hits)

lemma st_ok_flush_if_full: "flush_if_full e mm n s = Inr s' \<Longrightarrow> st_ok s \<Longrightarrow> st_ok s'"
proof -
  assume a: "flush_if_full e mm n s = Inr s'" and ok: "st_ok s"
  define sp where "sp = s\<lparr>probed := probed s @ [n]\<rparr>"
  have okp: "st_ok sp" using ok by (simp add: sp_def st_ok_def)
  from a have "s' = s \<or> s' = flush n s \<or> s' = sp \<or> s' = flush n sp"
    by (auto simp: flush_if_full_def Let_def sp_def split: option.splits if_splits)
  then show ?thesis using ok okp st_ok_flush by auto
qed

lemma st_ok_accumulate: "st_ok s \<Longrightarrow> st_ok (accumulate n r s)"
  by (simp add: st_ok_def accumulate_wf)

lemma st_ok_process_line: "process_line e bl mm n lid line s = Inr s' \<Longrightarrow> st_ok s \<Longrightarrow> st_ok s'"
proof -
  assume a: "process_line e bl mm n lid line s = Inr s'" and ok: "st_ok s"
  define s1 where "s1 = s\<lparr>line_id := Some lid, lines_read := lines_read s + 1\<rparr>"
  have ok1: "st_ok s1" using ok by (simp add: s1_def st_ok_def)
  from a have "s' = s1 \<or> (\<exists>r. flush_if_full e mm n (accumulate n r s1) = Inr s')"
    by (auto simp: process_line_def Let_def s1_def split: sum.splits option.splits)
  then show ?thesis using ok1 st_ok_flush_if_full st_ok_accumulate by blast
qed

lemma st_ok_read_lines: "read_lines e bl mm n lid ls s = Inr s' \<Longrightarrow> st_ok s \<Longrightarrow> st_ok s'"
proof (induction ls arbitrary: s lid)
  case Nil
  then show ?case by simp
next
  case (Cons line ls)
  from Cons.prems(1) obtain s1 where
    a: "process_line e bl mm n lid line s = Inr s1" and
    b: "read_lines e bl mm n (Suc lid) ls s1 = Inr s'"
    by (auto split: sum.splits)
  show ?case by (rule Cons.IH[OF b st_ok_process_line[OF a Cons.prems(2)]])
qed

lemma count_pass_cases:
  assumes "count_pass e ls bl mm n s = Inr s'"
  obtains s1 where
    "read_lines e bl mm n 0 ls (s\<lparr>lang_ngram_cnt := [], opens := opens s @ [n]\<rparr>) = Inr s1"
    "line_id s1 \<noteq> None"
    "s' = s1\<lparr>grams := (grams s1)(n := upsert_ngram_hits (lang_ngram_cnt s1) (grams s1 n))\<rparr>"
  using assms by (auto simp: count_pass_def split: sum.splits option.splits)

lemma st_ok_count_pass: "count_pass e ls bl mm n s = Inr s' \<Longrightarrow> st_ok s \<Longrightarrow> st_ok s'"
proof -
  assume a: "count_pass e ls bl mm n s = Inr s'" and ok: "st_ok s"
  from a obtain s1 where
    r: "read_lines e bl mm n 0 ls (s\<lparr>lang_ngram_cnt := [], opens := opens s @ [n]\<rparr>) = Inr s1"
    and s': "s' = s1\<lparr>grams := (grams s1)(n := upsert_ngram_hits (lang_ngram_cnt s1) (grams s1 n))\<rparr>"
    by (rule count_pass_cases)
  have "st_ok (s\<lparr>lang_ngram_cnt := [], opens := opens s @ [n]\<rparr>)"
    using ok by (simp add: st_ok_def)
  from st_ok_read_lines[OF r this] show ?thesis
    by (simp add: s' st_ok_def tbl_ok_upsert_ngram_hits)
qed

lemma count_pass_hits:
  assumes "count_pass e ls bl mm n s = Inr s'"
  shows "hits (grams s' n) g l = hits (grams s n) g l + ngram_count n g l (admitted e bl ls)"
    and "total_hits (grams s' n) l = total_hits (grams s n) l + window_count n l (admitted e bl ls)"
    and "m \<noteq> n \<Longrightarrow> grams s' m = grams s m"
proof -
  define s0 where "s0 = s\<lparr>lang_ngram_cnt := [], opens := opens s @ [n]\<rparr>"
  from assms obtain s1 where
    r: "read_lines e bl mm n 0 ls s0 = Inr s1"
    and s': "s' = s1\<lparr>grams := (grams s1)(n := upsert_ngram_hits (lang_ngram_cnt s1) (grams s1 n))\<rparr>"
    unfolding s0_def by (rule count_pass_cases)
  have wf0: "wf_cnt (lang_ngram_cnt s0)" by (simp add: s0_def)
  have p0: "pot_hits n g l s0 = hits (grams s n) g l" "pot_total n l s0 = total_hits (grams s n) l"
    "grams s0 = grams s"
    by (simp_all add: s0_def pot_hits_def pot_total_def)
  note rl = read_lines_pot[OF r wf0]
  from rl[of g l m] have wf1: "wf_cnt (lang_ngram_cnt s1)" by simp
  show "hits (grams s' n) g l = hits (grams s n) g l + ngram_count n g l (admitted e bl ls)"
    using rl[of g l m] p0 by (simp add: s' hits_upsert_ngram_hits[OF wf1] pot_hits_def)
  show "total_hits (grams s' n) l = total_hits (grams s n) l + window_count n l (admitted e bl ls)"
    using rl[of g l m] p0 by (simp add: s' total_hits_upsert_ngram_hits[OF wf1] pot_total_def)
  show "m \<noteq> n \<Longrightarrow> grams s' m = grams s m"
    using rl[of g l m] p0 by (simp add: s')
qed

lemma count_passes_hits:
  assumes "count_passes e ls bl mm ns s = Inr s'" and "distinct ns"
  shows "(n \<in> set ns \<longrightarrow>
            hits (grams s' n) g l = hits (grams s n) g l + ngram_count n g l (admitted e bl ls)
          \<and> total_hits (grams s' n) l = total_hits (grams s n) l + window_count n l (admitted e bl ls))
       \<and> (n \<notin> set ns \<longrightarrow> grams s' n = grams s n)"
  using assms
proof (induction ns arbitrary: s)
  case Nil
  then show ?case by simp
next
  case (Cons k ns)
  from Cons.prems(1) obtain s1 where
    a: "count_pass e ls bl mm k s = Inr s1" and
    b: "count_passes e ls bl mm ns s1 = Inr s'"
    by (auto split: sum.splits)
  from Cons.prems(2) have d: "distinct ns" and kn: "k \<notin> set ns" by auto
  note ih = Cons.IH[OF b d]
  note cp = count_pass_hits[OF a]
  show ?case
  proof (cases "n = k")
    case True
    with ih kn have "grams s' k = grams s1 k" by simp
    with cp(1)[of g l] cp(2)[of l] True show ?thesis by simp
  next
    case False
    with cp(3)[of n] ih show ?thesis by auto
  qed
qed

lemma st_ok_count_passes: "count_passes e ls bl mm ns s = Inr s' \<Longrightarrow> st_ok s \<Longrightarrow> st_ok s'"
proof (induction ns arbitrary: s)
  case Nil
  then show ?case by simp
next
  case (Cons k ns)
  from Cons.prems(1) obtain s1 where
    a: "count_pass e ls bl mm k s = Inr s1" and
    b: "count_passes e ls bl mm ns s1 = Inr s'"
    by (auto split: sum.splits)
  show ?case by (rule Cons.IH[OF b st_ok_count_pass[OF a Cons.prems(2)]])
qed

lemma ngram_sizes_eq: "ngram_sizes = [5, 4, 3, 2]"
  by (simp add: ngram_sizes_def MIN_NGRAM_SIZE_def MAX_NGRAM_SIZE_def upt_rec)

lemma count_cases:
  assumes "count e ls bl mm = Inr s"
  obtains s1 where "count_passes e ls bl mm [5, 4, 3, 2] init_state = Inr s1"
    "s = s1\<lparr>users_langs := insert_user_scores (user_lang_score s1) (users_langs s1)\<rparr>"
  using assms by (auto simp: count_def ngram_sizes_eq split: sum.splits)

lemma hits_Nil [simp]: "hits [] g l = 0" "total_hits [] l = 0" "tbl_ok []"
  by (simp_all add: hits_def total_hits_def tbl_ok_def)

lemma count_hits:
  assumes "count e ls bl mm = Inr s" and "n \<in> {2, 3, 4, 5}"
  shows "hits (grams s n) g l = ngram_count n g l (admitted e bl ls)"
    and "total_hits (grams s n) l = window_count n l (admitted e bl ls)"
    and "tbl_ok (grams s n)"
proof -
  from assms(1) obtain s1 where
    p: "count_passes e ls bl mm [5, 4, 3, 2] init_state = Inr s1" and
    s: "s = s1\<lparr>users_langs := insert_user_scores (user_lang_score s1) (users_langs s1)\<rparr>"
    by (rule count_cases)
  have g: "grams s = grams s1" by (simp add: s)
  have n: "n \<in> set [5, 4, 3, 2]" using assms(2) by auto
  have i: "grams init_state n = []" by (simp add: init_state_def)
  have "st_ok init_state" by (simp add: st_ok_def init_state_def)
  from st_ok_count_passes[OF p this] show "tbl_ok (grams s n)" by (simp add: g st_ok_def)
  have d: "distinct [5, 4, 3, 2::nat]" by simp
  from count_passes_hits[OF p d, of n g l] n
  have "hits (grams s1 n) g l = hits (grams init_state n) g l + ngram_count n g l (admitted e bl ls)"
    and "total_hits (grams s1 n) l =
           total_hits (grams init_state n) l + window_count n l (admitted e bl ls)"
    by blast+
  then show "hits (grams s n) g l = ngram_count n g l (admitted e bl ls)"
    and "total_hits (grams s n) l = window_count n l (admitted e bl ls)"
    by (simp_all add: g i)
qed

lemma accumulate_frame [simp]:
  "opens (accumulate n r s) = opens s"
  "lines_read (accumulate n r s) = lines_read s"
  "line_id (accumulate n r s) = line_id s"
  "users_langs (accumulate n r s) = users_langs s"
  "probed (accumulate n r s) = probed s"
  "flushes (accumulate n r s) = flushes s"
  "peak_tot_ngrams (accumulate n r s) = peak_tot_ngrams s"
  by (cases r; simp add: accumulate_def Let_def)+

lemma accumulate_score:
  "user_lang_score (accumulate n r s) =
     (if n = MIN_NGRAM_SIZE then add_score r (user_lang_score s) else user_lang_score s)"
  by (cases r) (simp add: accumulate_def Let_def add_score_def)

lemma flush_frame [simp]:
  "opens (flush n s) = opens s"
  "lines_read (flush n s) = lines_read s"
  "line_id (flush n s) = line_id s"
  "users_langs (flush n s) = users_langs s"
  "user_lang_score (flush n s) = user_lang_score s"
  "probed (flush n s) = probed s"
  by (simp_all add: flush_def)

lemma flush_if_full_cases:
  assumes "flush_if_full e mm n s = Inr s'"
  obtains (calibrated) k where "peak_tot_ngrams s = Some k"
      "s' = (if k \<le> tot_ngrams s then flush n s else s)"
    | (probe) m where "peak_tot_ngrams s = None"
      "get_peak_memory_usage e (length (probed s)) = Some m"
      "s' = (if mm \<le> m then flush n (s\<lparr>probed := probed s @ [n]\<rparr>)
             else s\<lparr>probed := probed s @ [n]\<rparr>)"
  using assms by (auto simp: flush_if_full_def Let_def split: option.splits if_splits)

lemma flush_if_full_frame:
  assumes "flush_if_full e mm n s = Inr s'"
  shows "opens s' = opens s" "lines_read s' = lines_read s" "line_id s' = line_id s"
    "users_langs s' = users_langs s" "user_lang_score s' = user_lang_score s"
  using assms by (auto elim!: flush_if_full_cases)

lemma process_line_cases:
  assumes "process_line e bl mm n lid line s = Inr s'"
  obtains (skip) "admit e bl line = Inr None"
      "s' = s\<lparr>line_id := Some lid, lines_read := lines_read s + 1\<rparr>"
    | (counted) r where "admit e bl line = Inr (Some r)"
      "flush_if_full e mm n
         (accumulate n r (s\<lparr>line_id := Some lid, lines_read := lines_read s + 1\<rparr>)) = Inr s'"
  using assms by (auto simp: process_line_def Let_def split: sum.splits option.splits)

lemma process_line_frame:
  assumes "process_line e bl mm n lid line s = Inr s'"
  shows "opens s' = opens s" "lines_read s' = Suc (lines_read s)" "line_id s' = Some lid"
    "users_langs s' = users_langs s"
    "user_lang_score s' =
       (if n = MIN_NGRAM_SIZE then fold add_score (admitted e bl [line]) (user_lang_score s)
        else user_lang_score s)"
proof -
  define s1 where "s1 = s\<lparr>line_id := Some lid, lines_read := lines_read s + 1\<rparr>"
  from assms have "opens s' = opens s \<and> lines_read s' = Suc (lines_read s)
      \<and> line_id s' = Some lid \<and> users_langs s' = users_langs s
      \<and> user_lang_score s' =
       (if n = MIN_NGRAM_SIZE then fold add_score (admitted e bl [line]) (user_lang_score s)
        else user_lang_score s)"
  proof (cases rule: process_line_cases)
    case skip
    then show ?thesis by simp
  next
    case (counted r)
    from flush_if_full_frame[OF counted(2)] counted(1) show ?thesis
      by (simp add: accumulate_score)
  qed
  then show "opens s' = opens s" "lines_read s' = Suc (lines_read s)" "line_id s' = Some lid"
    "users_langs s' = users_langs s"
    "user_lang_score s' =
       (if n = MIN_NGRAM_SIZE then fold add_score (admitted e bl [line]) (user_lang_score s)
        else user_lang_score s)"
    by simp_all
qed

lemma read_lines_frame:
  "read_lines e bl mm n lid ls s = Inr s' \<Longrightarrow>
     opens s' = opens s \<and> lines_read s' = lines_read s + length ls
     \<and> users_langs s' = users_langs s
     \<and> (ls \<noteq> [] \<longrightarrow> line_id s' \<noteq> None) \<and> (ls = [] \<longrightarrow> line_id s' = line_id s)
     \<and> user_lang_score s' =
       (if n = MIN_NGRAM_SIZE then fold add_score (admitted e bl ls) (user_lang_score s)
        else user_lang_score s)"
proof (induction ls arbitrary: s lid)
  case Nil
  then show ?case by simp
next
  case (Cons l ls)
  from Cons.prems obtain s1 where
    a: "process_line e bl mm n lid l s = Inr s1" and
    b: "read_lines e bl mm n (Suc lid) ls s1 = Inr s'"
    by (auto split: sum.splits)
  note pf = process_line_frame[OF a]
  have ac: "admitted e bl (l # ls) = admitted e bl [l] @ admitted e bl ls"
    by (rule admitted_Cons)
  from Cons.IH[OF b] pf show ?case
    unfolding ac by (cases "ls = []") simp_all
qed

lemma count_pass_frame:
  assumes "count_pass e ls bl mm n s = Inr s'"
  shows "opens s' = opens s @ [n]" "lines_read s' = lines_read s + length ls"
    "users_langs s' = users_langs s"
    "user_lang_score s' =
       (if n = MIN_NGRAM_SIZE then fold add_score (admitted e bl ls) (user_lang_score s)
        else user_lang_score s)"
    "line_id s' \<noteq> None"
proof -
  from assms obtain s1 where
    r: "read_lines e bl mm n 0 ls (s\<lparr>lang_ngram_cnt := [], opens := opens s @ [n]\<rparr>) = Inr s1"
    and l: "line_id s1 \<noteq> None"
    and s': "s' = s1\<lparr>grams := (grams s1)(n := upsert_ngram_hits (lang_ngram_cnt s1) (grams s1 n))\<rparr>"
    by (rule count_pass_cases)
  from read_lines_frame[OF r] l
  show "opens s' = opens s @ [n]" "lines_read s' = lines_read s + length ls"
    "users_langs s' = users_langs s"
    "user_lang_score s' =
       (if n = MIN_NGRAM_SIZE then fold add_score (admitted e bl ls) (user_lang_score s)
        else user_lang_score s)"
    "line_id s' \<noteq> None"
    by (simp_all add: s')
qed

lemma count_passes_frame:
  "count_passes e ls bl mm ns s = Inr s' \<Longrightarrow>
     opens s' = opens s @ ns \<and> lines_read s' = lines_read s + length ns * length ls
     \<and> users_langs s' = users_langs s"
proof (induction ns arbitrary: s)
  case Nil
  then show ?case by simp
next
  case (Cons k ns)
  from Cons.prems(1) obtain s1 where
    a: "count_pass e ls bl mm k s = Inr s1" and
    b: "count_passes e ls bl mm ns s1 = Inr s'"
    by (auto split: sum.splits)
  from Cons.IH[OF b] count_pass_frame[OF a] show ?case by simp
qed

lemma count_passes_score:
  "count_passes e ls bl mm ns s = Inr s' \<Longrightarrow> MIN_NGRAM_SIZE \<notin> set ns \<Longrightarrow>
     user_lang_score s' = user_lang_score s"
proof (induction ns arbitrary: s)
  case Nil
  then show ?case by simp
next
  case (Cons k ns)
  from Cons.prems(1) obtain s1 where
    a: "count_pass e ls bl mm k s = Inr s1" and
    b: "count_passes e ls bl mm ns s1 = Inr s'"
    by (auto split: sum.splits)
  from Cons.IH[OF b] count_pass_frame(4)[OF a] Cons.prems(2) show ?case by simp
qed

lemma count_passes_append:
  "count_passes e ls bl mm (ns @ ms) s =
     (case count_passes e ls bl mm ns s of Inl err \<Rightarrow> Inl err
      | Inr s1 \<Rightarrow> count_passes e ls bl mm ms s1)"
  by (induction ns arbitrary: s) (auto split: sum.splits)

lemma count_opens_reads:
  assumes "count e ls bl mm = Inr s"
  shows "opens s = [5, 4, 3, 2]" "lines_read s = 4 * length ls"
proof -
  from assms obtain s1 where
    p: "count_passes e ls bl mm [5, 4, 3, 2] init_state = Inr s1" and
    s: "s = s1\<lparr>users_langs := insert_user_scores (user_lang_score s1) (users_langs s1)\<rparr>"
    by (rule count_cases)
  from count_passes_frame[OF p]
  show "opens s = [5, 4, 3, 2]" "lines_read s = 4 * length ls"
    by (simp_all add: s init_state_def)
qed

lemma count_users_langs:
  assumes "count e ls bl mm = Inr s"
  shows "users_langs s = scores (admitted e bl ls)"
proof -
  from assms obtain s1 where
    p: "count_passes e ls bl mm ([5, 4, 3] @ [2]) init_state = Inr s1" and
    s: "s = s1\<lparr>users_langs := insert_user_scores (user_lang_score s1) (users_langs s1)\<rparr>"
    by (auto elim!: count_cases)
  from p obtain s3 where
    p3: "count_passes e ls bl mm [5, 4, 3] init_state = Inr s3" and
    p2: "count_pass e ls bl mm 2 s3 = Inr s1"
    unfolding count_passes_append by (auto split: sum.splits)
  have sc3: "user_lang_score s3 = []"
    using count_passes_score[OF p3] by (simp add: MIN_NGRAM_SIZE_def init_state_def)
  have ul3: "users_langs s3 = []"
    using count_passes_frame[OF p3] by (simp add: init_state_def)
  from count_pass_frame[OF p2] sc3 ul3 show ?thesis
    by (simp add: s scores_def MIN_NGRAM_SIZE_def)
qed

lemma flush_if_full_total:
  "platform e \<noteq> Other \<Longrightarrow> \<exists>s'. flush_if_full e mm n s = Inr s'"
  by (cases "platform e")
     (auto simp: flush_if_full_def get_peak_memory_usage_def Let_def split: option.splits)

lemma process_line_total:
  "platform e \<noteq> Other \<Longrightarrow> \<not> isl (admit e bl line) \<Longrightarrow>
     \<exists>s'. process_line e bl mm n lid line s = Inr s'"
  using flush_if_full_total[of e mm n]
  by (auto simp: process_line_def Let_def split: sum.splits option.splits)

lemma read_lines_total:
  "platform e \<noteq> Other \<Longrightarrow> \<forall>line \<in> set ls. \<not> isl (admit e bl line) \<Longrightarrow>
     \<exists>s'. read_lines e bl mm n lid ls s = Inr s'"
proof (induction ls arbitrary: s lid)
  case Nil
  then show ?case by simp
next
  case (Cons l ls)
  from Cons.prems process_line_total[of e bl l mm n lid s] obtain s1 where
    a: "process_line e bl mm n lid l s = Inr s1" by auto
  from Cons.IH[of "Suc lid" s1] Cons.prems obtain s' where
    "read_lines e bl mm n (Suc lid) ls s1 = Inr s'" by auto
  with a show ?case by simp
qed

lemma count_pass_total:
  assumes "platform e \<noteq> Other" "\<forall>line \<in> set ls. \<not> isl (admit e bl line)" "ls \<noteq> []"
  shows "\<exists>s'. count_pass e ls bl mm n s = Inr s'"
proof -
  from read_lines_total[OF assms(1,2)] obtain s1 where
    r: "read_lines e bl mm n 0 ls (s\<lparr>lang_ngram_cnt := [], opens := opens s @ [n]\<rparr>) = Inr s1"
    by blast
  from read_lines_frame[OF r] assms(3) have "line_id s1 \<noteq> None" by simp
  with r show ?thesis by (auto simp: count_pass_def)
qed

lemma count_passes_total:
  assumes "platform e \<noteq> Other" "\<forall>line \<in> set ls. \<not> isl (admit e bl line)" "ls \<noteq> []"
  shows "\<exists>s'. count_passes e ls bl mm ns s = Inr s'"
proof (induction ns arbitrary: s)
  case Nil
  then show ?case by simp
next
  case (Cons k ns)
  from count_pass_total[OF assms, of mm k s] obtain s1 where
    a: "count_pass e ls bl mm k s = Inr s1" by blast
  from Cons.IH[of s1] a show ?case by auto
qed

lemma count_total:
  assumes "platform e \<noteq> Other" "\<forall>line \<in> set ls. \<not> isl (admit e bl line)" "ls \<noteq> []"
  shows "\<exists>s. count e ls bl mm = Inr s"
  using count_passes_total[OF assms, of mm ngram_sizes init_state]
  by (auto simp: count_def)

lemma process_line_raises:
  "admit e bl line = Inl err \<Longrightarrow> process_line e bl mm n lid line s = Inl err"
  by (simp add: process_line_def Let_def)

lemma read_lines_raises:
  "line \<in> set ls \<Longrightarrow> isl (admit e bl line) \<Longrightarrow> isl (read_lines e bl mm n lid ls s)"
proof (induction ls arbitrary: s lid)
  case Nil
  then show ?case by simp
next
  case (Cons l ls)
  show ?case
  proof (cases "process_line e bl mm n lid l s")
    case (Inl err)
    then show ?thesis by simp
  next
    case (Inr s1)
    have "\<not> isl (admit e bl l)"
    proof
      assume "isl (admit e bl l)"
      then obtain err where "admit e bl l = Inl err" by (cases "admit e bl l") auto
      from process_line_raises[OF this, of mm n lid s] Inr show False by simp
    qed
    with Cons.prems have "line \<in> set ls" by auto
    from Cons.IH[OF this Cons.prems(2), of "Suc lid" s1] Inr show ?thesis by simp
  qed
qed

lemma count_raises:
  assumes "line \<in> set ls" "isl (admit e bl line)"
  shows "isl (count e ls bl mm)"
proof -
  define s0 where "s0 = init_state\<lparr>lang_ngram_cnt := [], opens := opens init_state @ [5]\<rparr>"
  from read_lines_raises[OF assms, of mm 5 0 s0] obtain err where
    "read_lines e bl mm 5 0 ls s0 = Inl err"
    by (cases "read_lines e bl mm 5 0 ls s0") auto
  then have "isl (count_pass e ls bl mm 5 init_state)"
    by (simp add: count_pass_def s0_def)
  then show ?thesis
    by (auto simp: count_def ngram_sizes_eq split: sum.splits)
qed

section \<open>The claims\<close>

lemma parse_ex_line1:
  "parse_line ex_line1 = Inr (str ''1'', str ''eng'', str ''ab'', str ''u1'')"
  by (simp add: ex_line1_def parse_line_def str_def rstrip_def is_whitespace_def split_def
      TAB_def unpack4_def)

lemma parse_ex_line2:
  "parse_line ex_line2 = Inr (str ''2'', str ''eng'', str ''ab'', str ''u1'')"
  by (simp add: ex_line2_def parse_line_def str_def rstrip_def is_whitespace_def split_def
      TAB_def unpack4_def)

lemma parse_ex_line3:
  "parse_line ex_line3 = Inr (str ''3'', NULL_LANG, str ''xx'', str ''u2'')"
  by (simp add: ex_line3_def parse_line_def str_def rstrip_def is_whitespace_def split_def
      TAB_def unpack4_def NULL_LANG_def)

lemma parse_ex_short_line: "parse_line ex_short_line = Inl UnpackValueError"
  by (simp add: ex_short_line_def parse_line_def str_def rstrip_def is_whitespace_def split_def
      TAB_def unpack4_def)

lemma fields_ex_bad_id_line:
  "split TAB (rstrip ex_bad_id_line) = [str ''x'', str ''eng'', str ''ab'', str ''u1'']"
  by (simp add: ex_bad_id_line_def str_def rstrip_def is_whitespace_def split_def TAB_def)

lemma parse_ex_long_line:
  "parse_line ex_long_line = Inr (str ''1'', str ''eng'', str ''abcdef'', str ''u1'')"
  by (simp add: ex_long_line_def parse_line_def str_def rstrip_def is_whitespace_def split_def
      TAB_def unpack4_def)

lemma eng_not_null: "str ''eng'' \<noteq> NULL_LANG" "str ''eng'' \<noteq> []"
  by (simp_all add: str_def NULL_LANG_def)

lemma admit_ex_line12:
  "to_int e (str ''1'') = Some i \<Longrightarrow> admit e {} ex_line1 = Inr (Some (str ''eng'', str ''ab'', str ''u1''))"
  "to_int e (str ''2'') = Some j \<Longrightarrow> admit e {} ex_line2 = Inr (Some (str ''eng'', str ''ab'', str ''u1''))"
  "admit e bl ex_line3 = Inr None"
  by (simp_all add: admit_def parse_ex_line1 parse_ex_line2 parse_ex_line3 eng_not_null)

lemma int_of_digits_ex:
  "int_of_digits (str ''1'') = Some 1" "int_of_digits (str ''2'') = Some 2"
  "int_of_digits (str ''x'') = None"
  by (simp_all add: int_of_digits_def str_def)

lemma ex_env_simps [simp]:
  "to_int ex_env = int_of_digits" "platform ex_env = Linux"
  by (simp_all add: ex_env_def)

lemma admitted_ex_corpus:
  "to_int e (str ''1'') = Some i \<Longrightarrow> to_int e (str ''2'') = Some j \<Longrightarrow>
   admitted e {} ex_corpus = [(str ''eng'', str ''ab'', str ''u1''), (str ''eng'', str ''ab'', str ''u1'')]"
  by (simp add: ex_corpus_def admit_ex_line12)

lemma count_ex_corpus_total:
  "platform e \<noteq> Other \<Longrightarrow> to_int e (str ''1'') = Some i \<Longrightarrow> to_int e (str ''2'') = Some j \<Longrightarrow>
   \<exists>s. count e ex_corpus {} mm = Inr s"
  by (rule count_total) (auto simp: ex_corpus_def admit_ex_line12)

lemma parse_line_fields:
  "parse_line line =
     (let f = split TAB (rstrip line) in
      if 4 \<le> length f then Inr (f ! 0, f ! 1, f ! 2, f ! 3) else Inl UnpackValueError)"
proof -
  define f where "f = split TAB (rstrip line)"
  have "unpack4 f = (if 4 \<le> length f then Inr (f ! 0, f ! 1, f ! 2, f ! 3) else Inl UnpackValueError)"
  proof (cases f)
    case Nil
    then show ?thesis by (simp add: unpack4_def)
  next
    case (Cons a f1)
    note c1 = Cons
    show ?thesis
    proof (cases f1)
      case Nil
      with c1 show ?thesis by (simp add: unpack4_def)
    next
      case (Cons b f2)
      note c2 = Cons
      show ?thesis
      proof (cases f2)
        case Nil
        with c1 c2 show ?thesis by (simp add: unpack4_def)
      next
        case (Cons c f3)
        note c3 = Cons
        show ?thesis
        proof (cases f3)
          case Nil
          with c1 c2 c3 show ?thesis by (simp add: unpack4_def)
        next
          case (Cons d f4)
          with c1 c2 c3 show ?thesis by (simp add: unpack4_def)
        qed
      qed
    qed
  qed
  then show ?thesis by (simp add: parse_line_def Let_def f_def)
qed

text \<open>C4\<close>
theorem C4_short_line_aborts:
  "count e (ex_short_line # rest) bl max_memory = Inl UnpackValueError"
  by (simp add: count_def ngram_sizes_eq count_pass_def process_line_def admit_def
      parse_ex_short_line Let_def)

text \<open>C10\<close>
theorem C10_bad_id_aborts:
  assumes "4 \<le> length (split TAB (rstrip line))"
    and "split TAB (rstrip line) ! 1 \<noteq> NULL_LANG"
    and "split TAB (rstrip line) ! 1 \<noteq> []"
    and "to_int e (split TAB (rstrip line) ! 0) = None"
  shows "process_line e bl max_memory n lid line s = Inl IntValueError
       \<and> count e (line # rest) bl max_memory = Inl IntValueError
       \<and> (line \<in> set sentences \<longrightarrow> isl (count e sentences bl max_memory))"
proof -
  from assms have a: "admit e bl line = Inl IntValueError"
    by (simp add: admit_def parse_line_fields Let_def)
  then have p: "\<And>n lid s. process_line e bl max_memory n lid line s = Inl IntValueError"
    by (rule process_line_raises)
  have c: "count e (line # rest) bl max_memory = Inl IntValueError"
    by (simp add: count_def ngram_sizes_eq count_pass_def p)
  from a have "isl (admit e bl line)" by simp
  then have "line \<in> set sentences \<longrightarrow> isl (count e sentences bl max_memory)"
    using count_raises by blast
  with p c show ?thesis by simp
qed

theorem C10_bad_id_aborts_witness:
  "4 \<le> length (split TAB (rstrip ex_bad_id_line))
   \<and> split TAB (rstrip ex_bad_id_line) ! 1 \<noteq> NULL_LANG
   \<and> split TAB (rstrip ex_bad_id_line) ! 1 \<noteq> []
   \<and> to_int ex_env (split TAB (rstrip ex_bad_id_line) ! 0) = None
   \<and> count ex_env [ex_bad_id_line] {} 500 = Inl IntValueError"
proof -
  have h1: "4 \<le> length (split TAB (rstrip ex_bad_id_line))"
    and h2: "split TAB (rstrip ex_bad_id_line) ! 1 \<noteq> NULL_LANG"
    and h3: "split TAB (rstrip ex_bad_id_line) ! 1 \<noteq> []"
    and h4: "to_int ex_env (split TAB (rstrip ex_bad_id_line) ! 0) = None"
    by (simp_all add: fields_ex_bad_id_line eng_not_null int_of_digits_ex)
  from C10_bad_id_aborts[OF h1 h2 h3 h4, of "{}" 500 5 0 init_state "[]" "[]"] h1 h2 h3 h4
  show ?thesis by simp
qed

text \<open>C5\<close>
theorem C5_four_passes:
  "count e sentences bl max_memory = Inr s \<Longrightarrow>
     opens s = [5, 4, 3, 2] \<and> lines_read s = 4 * length sentences"
  using count_opens_reads by simp

theorem C5_four_passes_witness:
  "count ex_env ex_corpus {} 500 = Inr (projr (count ex_env ex_corpus {} 500))
   \<and> opens (projr (count ex_env ex_corpus {} 500)) = [5, 4, 3, 2]
   \<and> lines_read (projr (count ex_env ex_corpus {} 500)) = 12"
proof -
  from count_ex_corpus_total[of ex_env 1 2 500] obtain s where
    s: "count ex_env ex_corpus {} 500 = Inr s" by (auto simp: int_of_digits_ex)
  from C5_four_passes[OF s] s show ?thesis by (simp add: ex_corpus_def)
qed

theorem C5_five_passes_counterexample:
  "\<not> isl (count ex_env ex_corpus {} 500)
   \<and> length (opens (projr (count ex_env ex_corpus {} 500))) \<noteq> 5"
proof -
  from count_ex_corpus_total[of ex_env 1 2 500] obtain s where
    s: "count ex_env ex_corpus {} 500 = Inr s" by (auto simp: int_of_digits_ex)
  from count_opens_reads(1)[OF s] s show ?thesis by simp
qed

lemma int_window_count: "int (window_count n lang rs) = total_windows n lang rs"
  by (induction rs) (auto simp: window_count_def total_windows_def valid_windows_def)

text \<open>C1\<close>
theorem C1_sum_of_hits:
  "count e sentences bl max_memory = Inr s \<Longrightarrow> n \<in> {2, 3, 4, 5} \<Longrightarrow>
     int (total_hits (grams s n) lang) = total_windows n lang (admitted e bl sentences)"
  using count_hits(2) int_window_count by simp

theorem C1_sum_of_hits_witness:
  "count ex_env ex_corpus {} 500 = Inr (projr (count ex_env ex_corpus {} 500))
   \<and> (2::nat) \<in> {2, 3, 4, 5}
   \<and> int (total_hits (grams (projr (count ex_env ex_corpus {} 500)) 2) (str ''eng'')) = 2"
proof -
  from count_ex_corpus_total[of ex_env 1 2 500] obtain s where
    s: "count ex_env ex_corpus {} 500 = Inr s" by (auto simp: int_of_digits_ex)
  have n: "(2::nat) \<in> {2, 3, 4, 5}" by simp
  have a: "admitted ex_env {} ex_corpus =
      [(str ''eng'', str ''ab'', str ''u1''), (str ''eng'', str ''ab'', str ''u1'')]"
    by (rule admitted_ex_corpus[of _ 1 2]) (simp_all add: int_of_digits_ex)
  from C1_sum_of_hits[OF s n, of "str ''eng''"] s show ?thesis
    by (simp add: a total_windows_def valid_windows_def str_def)
qed

end
